theory Spec2Isabelle
  imports Complex_Main "HOL-Library.Word" "HOL-Library.Sublist" "HOL-Library.Multiset"
begin

section \<open>Pose samples and the pose-quality evaluator\<close>

text \<open>
  A PoseNet keypoint has a part name, a pixel position and a detector score. Scores and
  positions are JavaScript numbers; they are modelled as reals, which agrees with the
  floating-point comparisons of the source on every value that is not NaN.
\<close>

record keypoint =
  part :: string
  position_x :: real
  position_y :: real
  score :: real

record pose =
  keypoints :: "keypoint list"
  pose_score :: real

record verdict =
  isCorrect :: bool
  confidence :: real
  message :: string

definition requiredPoints :: "string list" where
  "requiredPoints = [''nose'', ''leftEye'', ''rightEye'', ''leftEar'', ''rightEar'']"

text \<open>\<^verbatim>\<open>keypoints.find(kp => kp.part === name)\<close>: the first keypoint of that name.\<close>

definition findPart :: "keypoint list \<Rightarrow> string \<Rightarrow> keypoint option" where
  "findPart kps name = find (\<lambda>kp. part kp = name) kps"

text \<open>The filter predicate \<^verbatim>\<open>point && point.score > 0.5\<close>.\<close>

definition visiblePoint :: "keypoint list \<Rightarrow> string \<Rightarrow> bool" where
  "visiblePoint kps name =
     (case findPart kps name of None \<Rightarrow> False | Some point \<Rightarrow> score point > 0.5)"

definition visibleFacePoints :: "keypoint list \<Rightarrow> string list" where
  "visibleFacePoints kps = filter (visiblePoint kps) requiredPoints"

definition evaluatePoseQuality :: "pose \<Rightarrow> verdict" where
  "evaluatePoseQuality p =
     (let kps = keypoints p;
          vis = visibleFacePoints kps;
          nose = findPart kps ''nose'';
          leftShoulder = findPart kps ''leftShoulder'';
          rightShoulder = findPart kps ''rightShoulder'';
          initial = \<lparr>isCorrect = False, confidence = 0,
                     message = ''Position yourself in the frame''\<rparr>
      in if length vis \<ge> 3 then
           (let conf = real (length vis) / real (length requiredPoints);
                v = initial\<lparr>confidence := conf\<rparr>
            in case (leftShoulder, rightShoulder, nose) of
                 (Some l, Some r, Some n) \<Rightarrow>
                   (let shoulderDiff = \<bar>position_y l - position_y r\<bar>;
                        isLevel = shoulderDiff < 50;
                        isCentered = position_x n > 200 \<and> position_x n < 440
                    in if isLevel \<and> isCentered \<and> conf > 0.7 then
                         v\<lparr>isCorrect := True, message := ''Perfect pose! Stay still...''\<rparr>
                       else if \<not> isLevel then v\<lparr>message := ''Keep your shoulders level''\<rparr>
                       else if \<not> isCentered then
                         v\<lparr>message := ''Center yourself in the frame''\<rparr>
                       else v\<lparr>message := ''Almost there, stay still''\<rparr>)
               | _ \<Rightarrow> v)
         else initial)"

text \<open>The gate of the application has its own, stricter visibility test (four of five).\<close>

definition isGoodPose :: "pose \<Rightarrow> bool" where
  "isGoodPose p = (length (visibleFacePoints (keypoints p)) \<ge> 4)"

definition kp :: "string \<Rightarrow> real \<Rightarrow> real \<Rightarrow> real \<Rightarrow> keypoint" where
  "kp name px py sc = \<lparr>part = name, position_x = px, position_y = py, score = sc\<rparr>"

text \<open>Sample poses used to exercise the definitions.\<close>

definition facePose :: pose where
  "facePose = \<lparr>keypoints =
      [kp ''nose'' 320 200 0.9, kp ''leftEye'' 300 180 0.9, kp ''rightEye'' 340 180 0.9,
       kp ''leftEar'' 280 190 0.9, kp ''rightEar'' 360 190 0.9,
       kp ''rightShoulder'' 400 350 0.9], pose_score = 0.9\<rparr>"

definition fullPose :: pose where
  "fullPose = facePose\<lparr>keypoints := keypoints facePose @ [kp ''leftShoulder'' 240 352 0.9]\<rparr>"

definition dimPose :: pose where
  "dimPose = \<lparr>keypoints =
      [kp ''nose'' 320 200 0.9, kp ''leftEye'' 300 180 0.9, kp ''rightEye'' 340 180 0.3,
       kp ''leftShoulder'' 240 350 0.9, kp ''rightShoulder'' 400 350 0.9],
      pose_score = 0.5\<rparr>"

section \<open>Photo quality scoring\<close>

text \<open>
  JavaScript numbers in \<^verbatim>\<open>calculatePhotoQuality\<close>: a finite value (idealised as a real), an
  infinity with its sign (\<open>True\<close> for \<open>+Infinity\<close>) or NaN. Rounding is not modelled.
\<close>

datatype jsnum = Finite real | Infinite bool | NotANumber

text \<open>
  Division by a divisor that is never negative (here \<^verbatim>\<open>data.length / 4\<close>): IEEE 754 gives
  NaN for 0/0 and a signed infinity for any other dividend over 0.
\<close>

definition js_div :: "real \<Rightarrow> real \<Rightarrow> jsnum" where
  "js_div a b = (if b \<noteq> 0 then Finite (a / b)
                 else if a = 0 then NotANumber else Infinite (0 < a))"

text \<open>
  The loop \<^verbatim>\<open>for (let i = 0; i < data.length; i += 4)\<close> over the RGBA bytes of an
  \<^verbatim>\<open>ImageData\<close>, whose length is always four times the number of pixels. The
  accumulator is (totalBrightness, edgeStrength); the guard \<^verbatim>\<open>i < data.length - 4\<close> holds
  exactly when a next pixel follows.
\<close>

fun scanPixels :: "8 word list \<Rightarrow> real \<times> real \<Rightarrow> real \<times> real" where
  "scanPixels (r # g # b # a # rest) (totalBrightness, edgeStrength) =
     (let brightness = (real (unat r) + real (unat g) + real (unat b)) / 3;
          edge = (case rest of
                    nextR # nextG # nextB # _ \<Rightarrow>
                      \<bar>brightness
                        - (real (unat nextR) + real (unat nextG) + real (unat nextB)) / 3\<bar>
                  | _ \<Rightarrow> 0)
      in scanPixels rest (totalBrightness + brightness, edgeStrength + edge))"
| "scanPixels _ acc = acc"

definition pixelCount :: "8 word list \<Rightarrow> real" where
  "pixelCount data = real (length data) / 4"

definition avgBrightness :: "8 word list \<Rightarrow> jsnum" where
  "avgBrightness data = js_div (fst (scanPixels data (0, 0))) (pixelCount data)"

definition normalizedEdgeStrength :: "8 word list \<Rightarrow> jsnum" where
  "normalizedEdgeStrength data = js_div (snd (scanPixels data (0, 0))) (pixelCount data)"

text \<open>\<^verbatim>\<open>1 - Math.abs(avgBrightness - 128) / 128\<close>\<close>

fun brightnessScore :: "jsnum \<Rightarrow> jsnum" where
  "brightnessScore (Finite avg) = Finite (1 - \<bar>avg - 128\<bar> / 128)"
| "brightnessScore (Infinite _) = Infinite False"
| "brightnessScore NotANumber = NotANumber"

text \<open>\<^verbatim>\<open>Math.min(normalizedEdgeStrength / 20, 1)\<close>\<close>

fun sharpnessScore :: "jsnum \<Rightarrow> jsnum" where
  "sharpnessScore (Finite e) = Finite (min (e / 20) 1)"
| "sharpnessScore (Infinite positive) = (if positive then Finite 1 else Infinite False)"
| "sharpnessScore NotANumber = NotANumber"

text \<open>\<^verbatim>\<open>(brightnessScore + sharpnessScore) / 2\<close>\<close>

fun js_mean :: "jsnum \<Rightarrow> jsnum \<Rightarrow> jsnum" where
  "js_mean (Finite a) (Finite b) = Finite ((a + b) / 2)"
| "js_mean NotANumber _ = NotANumber"
| "js_mean _ NotANumber = NotANumber"
| "js_mean (Infinite s) (Finite _) = Infinite s"
| "js_mean (Finite _) (Infinite s) = Infinite s"
| "js_mean (Infinite s) (Infinite t) = (if s = t then Infinite s else NotANumber)"

text \<open>The body of \<^verbatim>\<open>calculatePhotoQuality\<close> from its loop on, on the bytes it has read.\<close>

definition qualityOfData :: "8 word list \<Rightarrow> jsnum" where
  "qualityOfData data =
     js_mean (brightnessScore (avgBrightness data))
             (sharpnessScore (normalizedEdgeStrength data))"

text \<open>
  The canvas handed to \<^verbatim>\<open>calculatePhotoQuality\<close> with its drawing context: its size and the
  RGBA bytes of its bitmap, four for each pixel.
\<close>

record canvas =
  canvas_width :: nat
  canvas_height :: nat
  bitmap :: "8 word list"

datatype dom_exception = IndexSizeError

text \<open>
  \<^verbatim>\<open>ctx.getImageData(0, 0, canvas.width, canvas.height).data\<close> is a call of the platform.
  By the HTML Standard \<^verbatim>\<open>getImageData\<close> throws an \<^verbatim>\<open>IndexSizeError\<close> exception when the
  width or the height it is asked for is zero, and returns the bytes of the rectangle
  otherwise, here those of the whole bitmap.
\<close>

definition getImageData :: "canvas \<Rightarrow> dom_exception + 8 word list" where
  "getImageData cv =
     (if canvas_width cv = 0 \<or> canvas_height cv = 0 then Inl IndexSizeError
      else Inr (bitmap cv))"

text \<open>The function has no \<^verbatim>\<open>try\<close>: an exception of its first statement leaves it.\<close>

definition calculatePhotoQuality :: "canvas \<Rightarrow> dom_exception + jsnum" where
  "calculatePhotoQuality cv =
     (case getImageData cv of
        Inl ex \<Rightarrow> Inl ex
      | Inr data \<Rightarrow> Inr (qualityOfData data))"

text \<open>A frame given by its pixels' alpha values, every pixel of colour (v, v, v).\<close>

definition grayFrame :: "8 word \<Rightarrow> 8 word list \<Rightarrow> 8 word list" where
  "grayFrame v alphas = concat (map (\<lambda>a. [v, v, v, a]) alphas)"

section \<open>The photo collection\<close>

record photo =
  photo_id :: string
  dataUrl :: string
  timestamp :: int
  qualityScore :: real

text \<open>
  \<^verbatim>\<open>Array.prototype.sort(compare)\<close> is a stable sort (ECMAScript 2019); it is modelled
  by the stable insertion sort that places an element before the first one it does not
  compare greater than.
\<close>

fun insertBy :: "('a \<Rightarrow> 'a \<Rightarrow> real) \<Rightarrow> 'a \<Rightarrow> 'a list \<Rightarrow> 'a list" where
  "insertBy compare x [] = [x]"
| "insertBy compare x (y # ys) =
     (if compare x y \<le> 0 then x # y # ys else y # insertBy compare x ys)"

definition array_sort :: "('a \<Rightarrow> 'a \<Rightarrow> real) \<Rightarrow> 'a list \<Rightarrow> 'a list" where
  "array_sort compare xs = foldr (insertBy compare) xs []"

text \<open>
  \<^verbatim>\<open>Array.prototype.slice(start, end)\<close> on integers: a negative index counts from the
  end, and both indices are clamped to the array.
\<close>

definition slice_index :: "nat \<Rightarrow> int \<Rightarrow> nat" where
  "slice_index len i = (if i < 0 then nat (max (int len + i) 0) else min (nat i) len)"

definition array_slice :: "int \<Rightarrow> int \<Rightarrow> 'a list \<Rightarrow> 'a list" where
  "array_slice start end xs =
     (let k = slice_index (length xs) start; final = slice_index (length xs) end
      in take (final - k) (drop k xs))"

definition addPhoto :: "photo \<Rightarrow> photo list \<Rightarrow> photo list" where
  "addPhoto p prev = prev @ [p]"

definition removePhoto :: "string \<Rightarrow> photo list \<Rightarrow> photo list" where
  "removePhoto photoId prev = filter (\<lambda>p. photo_id p \<noteq> photoId) prev"

definition getBestPhotos :: "int \<Rightarrow> photo list \<Rightarrow> photo list" where
  "getBestPhotos cnt photos =
     array_slice 0 cnt (array_sort (\<lambda>a b. qualityScore b - qualityScore a) photos)"

definition scored :: "string \<Rightarrow> real \<Rightarrow> photo" where
  "scored name q = \<lparr>photo_id = name, dataUrl = ''data:image/jpeg'', timestamp = 0,
                     qualityScore = q\<rparr>"

section \<open>The print layout\<close>

definition pageWidth :: real where "pageWidth = 2480"
definition pageHeight :: real where "pageHeight = 3508"
definition photoWidth :: real where "photoWidth = 413"
definition photoHeight :: real where "photoHeight = 531"
definition margin :: real where "margin = 60"

definition cols :: nat where
  "cols = nat \<lfloor>pageWidth / (photoWidth + 60)\<rfloor>"

definition rows :: nat where
  "rows = nat \<lfloor>pageHeight / (photoHeight + 60)\<rfloor>"

definition totalSlots :: nat where
  "totalSlots = cols * rows"

definition startX :: real where
  "startX = (pageWidth - (real cols * photoWidth + (real cols - 1) * margin)) / 2"

definition startY :: real where
  "startY = (pageHeight - (real rows * photoHeight + (real rows - 1) * margin)) / 2"

text \<open>One \<^verbatim>\<open>ctx.drawImage(img, x, y, photoWidth, photoHeight)\<close> with its border.\<close>

record placement =
  placed :: photo
  at_x :: real
  at_y :: real
  width :: real
  height :: real

record layout =
  drawn :: "placement list"
  verticalGuides :: "real list"
  horizontalGuides :: "real list"

definition drawPhoto :: "nat \<times> photo \<Rightarrow> placement" where
  "drawPhoto = (\<lambda>(index, p).
     (let row = index div cols; col = index mod cols
      in \<lparr>placed = p,
          at_x = startX + real col * (photoWidth + margin),
          at_y = startY + real row * (photoHeight + margin),
          width = photoWidth, height = photoHeight\<rparr>))"

text \<open>
  \<^verbatim>\<open>generateLayout\<close>: \<open>None\<close> stands for the early returns (no canvas or drawing context,
  or no photos), where nothing is drawn. Otherwise the page holds one placement per photo
  of \<^verbatim>\<open>photos.slice(0, totalSlots)\<close> and the dashed cutting guides.
\<close>

definition generateLayout :: "bool \<Rightarrow> photo list \<Rightarrow> layout option" where
  "generateLayout canvasReady photos =
     (if \<not> canvasReady \<or> length photos = 0 then None
      else Some \<lparr>drawn = map drawPhoto (enumerate 0 (array_slice 0 (int totalSlots) photos)),
                 verticalGuides =
                   map (\<lambda>i. startX + real i * (photoWidth + margin) - margin / 2) [1..<cols],
                 horizontalGuides =
                   map (\<lambda>i. startY + real i * (photoHeight + margin) - margin / 2) [1..<rows]\<rparr>)"

definition drawnPhotos :: "layout option \<Rightarrow> placement list" where
  "drawnPhotos result = (case result of None \<Rightarrow> [] | Some page \<Rightarrow> drawn page)"

section \<open>The countdown timer\<close>

text \<open>
  The state of \<^verbatim>\<open>CountdownTimer\<close>: its \<^verbatim>\<open>count\<close> and the interval it holds, if any. An
  interval is represented by the earliest time (in ms) of its next call: a call of
  \<^verbatim>\<open>setInterval(f, 1000)\<close> made at time \<open>t\<close> is not run before \<open>t + 1000\<close>, and its
  \<open>k\<close>-th call not before \<open>t + 1000 * k\<close>.
\<close>

record countdown =
  count_state :: int
  timer :: "int option"

text \<open>
  The effect \<^verbatim>\<open>useEffect(..., [isActive, onComplete, duration])\<close> together with the
  cleanup of its previous run (\<^verbatim>\<open>clearInterval\<close>). Inactive, it stores \<^verbatim>\<open>duration\<close> into
  the count and holds no interval; active, it starts a fresh interval at time \<open>now\<close>.
\<close>

definition countdown_effect :: "bool \<Rightarrow> int \<Rightarrow> int \<Rightarrow> countdown \<Rightarrow> countdown" where
  "countdown_effect isActive duration now c =
     (if \<not> isActive then c\<lparr>count_state := duration, timer := None\<rparr>
      else c\<lparr>timer := Some (now + 1000)\<rparr>)"

text \<open>
  One call of the interval's function at time \<open>now\<close>, with the flag telling whether
  \<^verbatim>\<open>onComplete()\<close> was called. Without an interval, or before the interval is due,
  there is no call.
\<close>

definition countdown_tick :: "int \<Rightarrow> int \<Rightarrow> countdown \<Rightarrow> countdown \<times> bool" where
  "countdown_tick duration now c =
     (case timer c of
        None \<Rightarrow> (c, False)
      | Some due \<Rightarrow>
          if now < due then (c, False)
          else (let c' = c\<lparr>timer := Some (due + 1000)\<rparr>
                in if count_state c \<le> 1 then (c'\<lparr>count_state := duration\<rparr>, True)
                   else (c'\<lparr>count_state := count_state c - 1\<rparr>, False)))"

section \<open>The application: gate, countdown and capture\<close>

text \<open>
  The state of \<^verbatim>\<open>App\<close>: its React state, its three refs, the state of the
  \<^verbatim>\<open>CountdownTimer\<close> it renders (always with \<^verbatim>\<open>duration = 3\<close>), and the wall clock read
  by \<^verbatim>\<open>Date.now()\<close>. \<^verbatim>\<open>currentVideo\<close> records whether the video element is set.
\<close>

record app =
  autoCapture :: bool
  currentVideo :: bool
  currentPose :: "pose option"
  isCountdownActive :: bool
  isCapturing :: bool
  capturedPhotos :: "photo list"
  lastCaptureTime :: int
  poseStableTime :: int
  wasCorrectPose :: bool
  countdown :: countdown
  clock :: int

datatype signal = StartCountdown | CountdownComplete

definition initialApp :: "int \<Rightarrow> app" where
  "initialApp t0 =
     \<lparr>autoCapture = True, currentVideo = False, currentPose = None,
      isCountdownActive = False, isCapturing = False, capturedPhotos = [],
      lastCaptureTime = 0, poseStableTime = 0, wasCorrectPose = False,
      countdown = \<lparr>count_state = 3, timer = None\<rparr>, clock = t0\<rparr>"

text \<open>
  \<^verbatim>\<open>startCountdown\<close> sets \<^verbatim>\<open>isCountdownActive\<close>; the timer's effect runs in the render
  that follows, before the next event.
\<close>

definition startCountdown :: "app \<Rightarrow> app" where
  "startCountdown s =
     s\<lparr>isCountdownActive := True,
       countdown := countdown_effect True 3 (clock s) (countdown s)\<rparr>"

text \<open>The samples \<^verbatim>\<open>handlePoseDetected\<close> lets through its two early returns.\<close>

definition processed :: "app \<Rightarrow> bool" where
  "processed s =
     (autoCapture s \<and> currentVideo s \<and> \<not> isCapturing s \<and> \<not> isCountdownActive s
      \<and> \<not> clock s - lastCaptureTime s < 5000)"

definition handlePoseDetected :: "pose \<Rightarrow> app \<Rightarrow> app \<times> signal list" where
  "handlePoseDetected p s0 =
     (let s = s0\<lparr>currentPose := Some p\<rparr> in
      if \<not> autoCapture s \<or> \<not> currentVideo s \<or> isCapturing s \<or> isCountdownActive s
      then (s, [])
      else (let now = clock s in
        if now - lastCaptureTime s < 5000 then (s, [])
        else if isGoodPose p then
          (if \<not> wasCorrectPose s then
             (s\<lparr>poseStableTime := now, wasCorrectPose := True\<rparr>, [])
           else if now - poseStableTime s > 2000 then
             ((startCountdown s)\<lparr>wasCorrectPose := False\<rparr>, [StartCountdown])
           else (s, []))
        else (s\<lparr>wasCorrectPose := False\<rparr>, [])))"

text \<open>
  \<^verbatim>\<open>handleCountdownComplete\<close> and \<^verbatim>\<open>handleManualCapture\<close>. The promise of
  \<^verbatim>\<open>capturePhoto\<close> is settled inside its constructor, so the code after \<^verbatim>\<open>await\<close> runs
  before any later pose sample or timer call: each handler is one step. Its argument is
  the outcome of \<^verbatim>\<open>capturePhoto\<close>, \<open>None\<close> when it throws.
\<close>

definition handleCountdownComplete :: "photo option \<Rightarrow> app \<Rightarrow> app" where
  "handleCountdownComplete capture s0 =
     (let s = s0\<lparr>isCountdownActive := False,
                 countdown := countdown_effect False 3 (clock s0) (countdown s0)\<rparr> in
      if currentVideo s then
        (case capture of
           Some p \<Rightarrow> s\<lparr>capturedPhotos := addPhoto p (capturedPhotos s),
                        lastCaptureTime := clock s, isCapturing := False\<rparr>
         | None \<Rightarrow> s\<lparr>isCapturing := False\<rparr>)
      else s)"

definition handleManualCapture :: "photo option \<Rightarrow> app \<Rightarrow> app" where
  "handleManualCapture capture s =
     (if \<not> currentVideo s \<or> isCapturing s then s
      else (case capture of
              Some p \<Rightarrow> s\<lparr>capturedPhotos := addPhoto p (capturedPhotos s),
                           isCapturing := False\<rparr>
            | None \<Rightarrow> s\<lparr>isCapturing := False\<rparr>))"

text \<open>
  A render of \<^verbatim>\<open>App\<close> creates a new \<^verbatim>\<open>handleCountdownComplete\<close> closure (it is not
  wrapped in \<^verbatim>\<open>useCallback\<close>) and passes it to \<^verbatim>\<open>CountdownTimer\<close> as \<^verbatim>\<open>onComplete\<close>, a
  dependency of the timer's effect: the effect runs again, which clears a running interval
  and starts a new one, and leaves the count alone.
\<close>

definition rerender :: "app \<Rightarrow> app" where
  "rerender s =
     s\<lparr>countdown := countdown_effect (isCountdownActive s) 3 (clock s) (countdown s)\<rparr>"

text \<open>
  What can happen to the application. \<open>Advance d\<close> lets \<open>d\<close> ms pass. \<open>PoseDetected\<close> is
  a call of \<^verbatim>\<open>handlePoseDetected\<close> by the camera view, with a new pose sample or, when the
  handler has been recreated, with the current one again; its \<^verbatim>\<open>setCurrentPose\<close> renders
  \<^verbatim>\<open>App\<close>. \<open>Tick\<close> is a call of the countdown's interval, carrying the outcome of the
  capture it may start; it changes the timer's own count and renders \<^verbatim>\<open>App\<close> only when it
  completes. A manual capture, a change of the auto-capture checkbox and the arrival of the
  video render \<^verbatim>\<open>App\<close> when they change its state; \<open>Rerender\<close> is a render for any
  other reason. Events are handled one at a time, each on the state the previous one has
  left: the state updates of a handler are rendered before the next sample or timer call
  arrives.
\<close>

datatype event =
    Advance nat
  | PoseDetected pose
  | Tick "photo option"
  | ManualCapture "photo option"
  | SetAutoCapture bool
  | VideoReady
  | Rerender

fun step :: "app \<Rightarrow> event \<Rightarrow> app \<times> signal list" where
  "step s (Advance d) = (s\<lparr>clock := clock s + int d\<rparr>, [])"
| "step s (PoseDetected p) =
     (rerender (fst (handlePoseDetected p s)), snd (handlePoseDetected p s))"
| "step s (Tick capture) =
     (case countdown_tick 3 (clock s) (countdown s) of
        (c, True) \<Rightarrow> (handleCountdownComplete capture (s\<lparr>countdown := c\<rparr>), [CountdownComplete])
      | (c, False) \<Rightarrow> (s\<lparr>countdown := c\<rparr>, []))"
| "step s (ManualCapture capture) =
     (if \<not> currentVideo s \<or> isCapturing s then handleManualCapture capture s
      else rerender (handleManualCapture capture s), [])"
| "step s (SetAutoCapture b) =
     (if b = autoCapture s then s else rerender (s\<lparr>autoCapture := b\<rparr>), [])"
| "step s VideoReady =
     (if currentVideo s then s else rerender (s\<lparr>currentVideo := True\<rparr>), [])"
| "step s Rerender = (rerender s, [])"

text \<open>The signals of a run, each with the time at which it was emitted.\<close>

fun run :: "app \<Rightarrow> event list \<Rightarrow> (int \<times> signal) list" where
  "run s [] = []"
| "run s (e # es) = map (Pair (clock s)) (snd (step s e)) @ run (fst (step s e)) es"

definition triggers :: "app \<Rightarrow> event list \<Rightarrow> int list" where
  "triggers s es = map fst (filter (\<lambda>x. snd x = StartCountdown) (run s es))"

definition exec :: "app \<Rightarrow> event list \<Rightarrow> app" where
  "exec s es = foldl (\<lambda>s e. fst (step s e)) s es"

text \<open>The state in which the \<open>k\<close>-th event of a run is handled.\<close>

definition stateAt :: "app \<Rightarrow> event list \<Rightarrow> nat \<Rightarrow> app" where
  "stateAt s es k = exec s (take k es)"

definition fires :: "app \<Rightarrow> event \<Rightarrow> bool" where
  "fires s e = (StartCountdown \<in> set (snd (step s e)))"

text \<open>
  What the gate sees of an event: nothing, unless it is a pose sample that passes the
  early returns; then, whether the pose is good.
\<close>

definition seen :: "app \<Rightarrow> event \<Rightarrow> bool option" where
  "seen s e = (case e of
                 PoseDetected p \<Rightarrow> if processed s then Some (isGoodPose p) else None
               | _ \<Rightarrow> None)"

text \<open>Signals alternate between the start of a countdown and its completion.\<close>

fun alternating :: "bool \<Rightarrow> signal list \<Rightarrow> bool" where
  "alternating active [] = True"
| "alternating active (x # xs) =
     (x = (if active then CountdownComplete else StartCountdown) \<and> alternating (\<not> active) xs)"

section \<open>Auxiliary notions for the runs of the application\<close>

text \<open>The timer at rest, as it is whenever \<^verbatim>\<open>isActive\<close> is false.\<close>

definition idle :: countdown where
  "idle = \<lparr>count_state = 3, timer = None\<rparr>"

text \<open>
  A sequence of calls of the interval's function, at the given times, with the number of
  calls of \<^verbatim>\<open>onComplete\<close> they make.
\<close>

fun calls :: "int \<Rightarrow> countdown \<Rightarrow> int list \<Rightarrow> countdown \<times> nat" where
  "calls duration c [] = (c, 0)"
| "calls duration c (t # ts) =
     (let r = countdown_tick duration t c; rest = calls duration (fst r) ts
      in (fst rest, (if snd r then 1 else 0) + snd rest))"

text \<open>The timer holds an interval exactly while the countdown is active.\<close>

definition timer_matches :: "app \<Rightarrow> bool" where
  "timer_matches s = (isCountdownActive s \<longleftrightarrow> timer (countdown s) \<noteq> None)"

text \<open>Outside a countdown the timer is at rest.\<close>

definition idle_consistent :: "app \<Rightarrow> bool" where
  "idle_consistent s = (\<not> isCountdownActive s \<longrightarrow> countdown s = idle)"

text \<open>
  What holds of every state reached after a trigger emitted at time \<open>T\<close>: while the
  countdown runs, the gate is not stabilising and the calls still needed cannot end before
  \<open>T + 3000\<close>; afterwards that time has passed, and a stability window, if open, was
  opened after it.
\<close>

definition after_trigger :: "int \<Rightarrow> app \<Rightarrow> bool" where
  "after_trigger T s =
     (T \<le> clock s \<and>
      (if isCountdownActive s then
         \<not> wasCorrectPose s \<and>
         (case timer (countdown s) of
            None \<Rightarrow> False
          | Some due \<Rightarrow> 1 \<le> count_state (countdown s) \<and> due \<le> clock s + 1000
                        \<and> T + 3000 \<le> due + 1000 * (count_state (countdown s) - 1))
       else countdown s = idle \<and> T + 3000 \<le> clock s
            \<and> (wasCorrectPose s \<longrightarrow> T + 3000 \<le> poseStableTime s)))"

text \<open>
  A stability window opened by event \<open>j\<close> and still open before event \<open>k\<close>: the gate
  was not stabilising when it saw the good sample \<open>j\<close>, and since then it has seen no bad
  sample and emitted no trigger.
\<close>

definition holdFrom :: "app \<Rightarrow> event list \<Rightarrow> nat \<Rightarrow> nat \<Rightarrow> bool" where
  "holdFrom s0 es j k =
     (j < k \<and> seen (stateAt s0 es j) (es ! j) = Some True
      \<and> \<not> wasCorrectPose (stateAt s0 es j)
      \<and> (\<forall>i \<in> {j<..<k}. seen (stateAt s0 es i) (es ! i) \<noteq> Some False
                           \<and> \<not> fires (stateAt s0 es i) (es ! i)))"

text \<open>Sample runs: a pose held for 2001 ms, and a whole session with two captures.\<close>

definition hold :: "event list" where
  "hold = [VideoReady, PoseDetected fullPose, Advance 1000, PoseDetected fullPose,
           Advance 1001, PoseDetected fullPose]"

text \<open>
  Samples at the cadence of the pose detector (\<^verbatim>\<open>setInterval(detectPose, 100)\<close>), with an
  attempt to call the countdown's interval before and after each; and a countdown
  disturbed by a single sample, 500 ms after its start.
\<close>

definition sampling :: "nat \<Rightarrow> photo option \<Rightarrow> event list" where
  "sampling n capture =
     concat (replicate n [Advance 100, Tick capture, PoseDetected fullPose, Tick capture])"

definition disturbed :: "event list" where
  "disturbed =
     hold @ [Advance 500, PoseDetected fullPose, Advance 2500, Tick None, Tick None,
             Tick (Some (scored ''late'' 0.5)), Advance 500,
             Tick (Some (scored ''late'' 0.5))]"

definition session :: "event list" where
  "session =
     [VideoReady, PoseDetected fullPose, Advance 2001, PoseDetected fullPose,
      Advance 1000, Tick None, Advance 1000, Tick None, Advance 1000,
      Tick (Some (scored ''first'' 0.5)),
      Advance 5000, PoseDetected fullPose, Advance 2001, PoseDetected fullPose]"

section \<open>Properties of the evaluator\<close>

lemma distinct_requiredPoints: "distinct requiredPoints"
  by (simp add: requiredPoints_def)

lemma length_visibleFacePoints:
  "length (visibleFacePoints kps) = card {n \<in> set requiredPoints. visiblePoint kps n}"
proof -
  have "distinct (visibleFacePoints kps)"
    unfolding visibleFacePoints_def using distinct_requiredPoints by simp
  then have "length (visibleFacePoints kps) = card (set (visibleFacePoints kps))"
    by (simp add: distinct_card)
  also have "set (visibleFacePoints kps) = {n \<in> set requiredPoints. visiblePoint kps n}"
    by (simp add: visibleFacePoints_def)
  finally show ?thesis .
qed

lemma visible_facePose: "visibleFacePoints (keypoints facePose) = requiredPoints"
  by (simp add: visibleFacePoints_def requiredPoints_def visiblePoint_def findPart_def
      facePose_def kp_def)

lemma visible_dimPose: "visibleFacePoints (keypoints dimPose) = [''nose'', ''leftEye'']"
  by (simp add: visibleFacePoints_def requiredPoints_def visiblePoint_def findPart_def
      dimPose_def kp_def)

text \<open>
  C4. Whenever fewer than three of the five facial landmarks nose, leftEye, rightEye,
  leftEar, rightEar are visible (found in the keypoint list with a score above 0.5), the
  evaluator answers isCorrect = false, confidence = 0 and the message
  "Position yourself in the frame".
\<close>

theorem evaluatePoseQuality_few_landmarks:
  assumes "card {n \<in> set requiredPoints. visiblePoint (keypoints p) n} < 3"
  shows "evaluatePoseQuality p =
           \<lparr>isCorrect = False, confidence = 0, message = ''Position yourself in the frame''\<rparr>"
proof -
  from assms have "\<not> 3 \<le> length (visibleFacePoints (keypoints p))"
    by (simp add: length_visibleFacePoints)
  then show ?thesis
    by (simp add: evaluatePoseQuality_def Let_def)
qed

theorem evaluatePoseQuality_few_landmarks_witness:
  "card {n \<in> set requiredPoints. visiblePoint (keypoints dimPose) n} < 3 \<and>
   evaluatePoseQuality dimPose =
     \<lparr>isCorrect = False, confidence = 0, message = ''Position yourself in the frame''\<rparr>"
proof -
  have "card {n \<in> set requiredPoints. visiblePoint (keypoints dimPose) n} = 2"
    using length_visibleFacePoints [of "keypoints dimPose"] by (simp add: visible_dimPose)
  then have h: "card {n \<in> set requiredPoints. visiblePoint (keypoints dimPose) n} < 3"
    by simp
  from evaluatePoseQuality_few_landmarks [OF h] h show ?thesis by simp
qed

text \<open>
  C10. When the nose, the left shoulder or the right shoulder is missing from the keypoint
  list, the verdict is never correct and the message stays
  "Position yourself in the frame", whatever the facial landmarks are; so a correct verdict
  needs all three to be present. The witness is a pose with all five facial landmarks
  visible (confidence 1) and no left shoulder.
\<close>

theorem evaluatePoseQuality_missing_anchor:
  assumes "findPart (keypoints p) ''nose'' = None
         \<or> findPart (keypoints p) ''leftShoulder'' = None
         \<or> findPart (keypoints p) ''rightShoulder'' = None"
  shows "isCorrect (evaluatePoseQuality p) = False
       \<and> message (evaluatePoseQuality p) = ''Position yourself in the frame''"
  using assms
  by (auto simp: evaluatePoseQuality_def Let_def split: option.splits)

theorem evaluatePoseQuality_missing_anchor_witness:
  "findPart (keypoints facePose) ''leftShoulder'' = None
   \<and> length (visibleFacePoints (keypoints facePose)) = 5
   \<and> confidence (evaluatePoseQuality facePose) = 1
   \<and> isCorrect (evaluatePoseQuality facePose) = False
   \<and> message (evaluatePoseQuality facePose) = ''Position yourself in the frame''"
proof -
  have h: "findPart (keypoints facePose) ''leftShoulder'' = None"
    by (simp add: findPart_def facePose_def kp_def)
  have c: "confidence (evaluatePoseQuality facePose) = 1"
    by (simp add: evaluatePoseQuality_def Let_def visible_facePose h)
       (simp add: requiredPoints_def)
  have l: "length (visibleFacePoints (keypoints facePose)) = 5"
    by (simp add: visible_facePose requiredPoints_def)
  from evaluatePoseQuality_missing_anchor [of facePose] h c l show ?thesis by simp
qed

section \<open>Properties of the quality score\<close>

lemma grayFrame_Nil: "grayFrame v [] = []"
  by (simp add: grayFrame_def)

lemma grayFrame_Cons: "grayFrame v (a # as) = v # v # v # a # grayFrame v as"
  by (simp add: grayFrame_def)

lemma length_grayFrame: "length (grayFrame v as) = 4 * length as"
  by (induction as) (simp_all add: grayFrame_Cons grayFrame_Nil)

text \<open>A uniform frame adds its grey level once per pixel and no edge strength.\<close>

lemma scanPixels_grayFrame:
  "scanPixels (grayFrame v as) (tb, es) = (tb + real (length as) * real (unat v), es)"
proof (induction as arbitrary: tb es)
  case Nil
  then show ?case by (simp add: grayFrame_Nil)
next
  case (Cons a as)
  show ?case
  proof (cases as)
    case Nil
    then show ?thesis by (simp add: grayFrame_Cons grayFrame_Nil)
  next
    case (Cons a' as')
    then show ?thesis
      using Cons.IH [of "tb + real (unat v)" es]
      by (simp add: grayFrame_Cons Let_def algebra_simps)
  qed
qed

lemma pixelCount_grayFrame: "pixelCount (grayFrame v as) = real (length as)"
  by (simp add: pixelCount_def length_grayFrame)

lemma avgBrightness_grayFrame:
  "as \<noteq> [] \<Longrightarrow> avgBrightness (grayFrame v as) = Finite (real (unat v))"
  using scanPixels_grayFrame [of v as 0 0]
  by (simp add: avgBrightness_def pixelCount_grayFrame js_div_def)

lemma normalizedEdgeStrength_grayFrame:
  "as \<noteq> [] \<Longrightarrow> normalizedEdgeStrength (grayFrame v as) = Finite 0"
  using scanPixels_grayFrame [of v as 0 0]
  by (simp add: normalizedEdgeStrength_def pixelCount_grayFrame js_div_def)

lemma qualityOfData_grayFrame:
  "as \<noteq> [] \<Longrightarrow> qualityOfData (grayFrame 128 as) = Finite 0.5"
  by (simp add: qualityOfData_def avgBrightness_grayFrame normalizedEdgeStrength_grayFrame)

text \<open>
  C5. For a non-empty frame (a canvas of \<open>w\<close> by \<open>h\<close> pixels, both positive) whose pixels
  all have the colour (128, 128, 128), whatever their alpha values, the brightness score
  is 1, the sharpness score 0 and the quality score returned 0.5; for a non-empty frame of
  black pixels the brightness score is 0. (On these frames every intermediate value is
  exact in floating point as well.)
\<close>

theorem quality_of_uniform_frames:
  assumes "0 < w" "0 < h" "length alphas = w * h"
  shows "brightnessScore (avgBrightness (grayFrame 128 alphas)) = Finite 1
       \<and> sharpnessScore (normalizedEdgeStrength (grayFrame 128 alphas)) = Finite 0
       \<and> calculatePhotoQuality
           \<lparr>canvas_width = w, canvas_height = h, bitmap = grayFrame 128 alphas\<rparr>
           = Inr (Finite 0.5)
       \<and> brightnessScore (avgBrightness (grayFrame 0 alphas)) = Finite 0"
proof -
  from assms have ne: "alphas \<noteq> []" by auto
  from assms(1,2) have g: "getImageData
      \<lparr>canvas_width = w, canvas_height = h, bitmap = grayFrame 128 alphas\<rparr>
      = Inr (grayFrame 128 alphas)"
    by (simp add: getImageData_def)
  from ne show ?thesis
    by (simp add: calculatePhotoQuality_def g qualityOfData_grayFrame
        avgBrightness_grayFrame normalizedEdgeStrength_grayFrame)
qed

theorem quality_of_uniform_frames_witness:
  "(0::nat) < 2 \<and> (0::nat) < 1 \<and> length [255, 0 :: 8 word] = 2 * 1
   \<and> grayFrame 128 [255, 0] = [128, 128, 128, 255, 128, 128, 128, 0]
   \<and> calculatePhotoQuality
        \<lparr>canvas_width = 2, canvas_height = 1,
         bitmap = [128, 128, 128, 255, 128, 128, 128, 0]\<rparr> = Inr (Finite 0.5)
   \<and> brightnessScore (avgBrightness [0, 0, 0, 255, 0, 0, 0, 0]) = Finite 0"
proof -
  have g: "grayFrame 128 [255, 0] = [128, 128, 128, 255, 128, 128, 128, 0 :: 8 word]"
    "grayFrame 0 [255, 0] = [0, 0, 0, 255, 0, 0, 0, 0 :: 8 word]"
    by (simp_all add: grayFrame_def)
  from quality_of_uniform_frames [of 2 1 "[255, 0]"] show ?thesis
    by (simp add: g)
qed

lemma byte_bounds: "0 \<le> real (unat (w :: 8 word)) \<and> real (unat w) \<le> 255"
proof -
  have "unat w < 256"
    using unsigned_less [of w, where 'a = nat] by simp
  then show ?thesis by linarith
qed

lemma mean3_bounds:
  fixes x y z :: real
  assumes "0 \<le> x \<and> x \<le> 255" "0 \<le> y \<and> y \<le> 255" "0 \<le> z \<and> z \<le> 255"
  shows "0 \<le> (x + y + z) / 3 \<and> (x + y + z) / 3 \<le> 255"
  using assms by simp

text \<open>
  The loop never lowers its accumulators, and adds at most 255 of brightness per pixel.
\<close>

lemma scanPixels_bounds:
  "tb \<le> fst (scanPixels data (tb, es))
   \<and> fst (scanPixels data (tb, es)) \<le> tb + 255 * (real (length data) / 4)
   \<and> es \<le> snd (scanPixels data (tb, es))"
proof (induction data "(tb, es)" arbitrary: tb es rule: scanPixels.induct)
  case (1 r g b a rest totalBrightness edgeStrength)
  define br where "br = (real (unat r) + real (unat g) + real (unat b)) / 3"
  define edge where "edge = (case rest of
                    nextR # nextG # nextB # _ \<Rightarrow>
                      \<bar>br - (real (unat nextR) + real (unat nextG) + real (unat nextB)) / 3\<bar>
                  | _ \<Rightarrow> 0)"
  have e: "0 \<le> edge"
    by (simp add: edge_def split: list.splits)
  have b: "0 \<le> br \<and> br \<le> 255"
    unfolding br_def
    by (rule mean3_bounds [OF byte_bounds byte_bounds byte_bounds])
  have unroll: "scanPixels (r # g # b # a # rest) (totalBrightness, edgeStrength)
      = scanPixels rest (totalBrightness + br, edgeStrength + edge)"
    by (simp only: scanPixels.simps Let_def br_def edge_def)
  have ih: "totalBrightness + br
       \<le> fst (scanPixels rest (totalBrightness + br, edgeStrength + edge))
   \<and> fst (scanPixels rest (totalBrightness + br, edgeStrength + edge))
       \<le> totalBrightness + br + 255 * (real (length rest) / 4)
   \<and> edgeStrength + edge
       \<le> snd (scanPixels rest (totalBrightness + br, edgeStrength + edge))"
    unfolding edge_def br_def by (rule "1.hyps" [OF refl refl])
  show ?case
    unfolding unroll using ih e b by (simp add: field_simps)
qed simp_all

lemma qualityOfData_finite:
  assumes "data \<noteq> []"
  shows "\<exists>q. qualityOfData data = Finite q \<and> 0 \<le> q \<and> q \<le> 1"
proof -
  define n where "n = pixelCount data"
  have n: "0 < n" using assms by (simp add: n_def pixelCount_def)
  define tb where "tb = fst (scanPixels data (0, 0))"
  define es where "es = snd (scanPixels data (0, 0))"
  from scanPixels_bounds [of 0 data 0]
  have bd: "0 \<le> tb" "tb \<le> 255 * n" "0 \<le> es"
    by (simp_all add: tb_def es_def n_def pixelCount_def)
  have avg: "avgBrightness data = Finite (tb / n)"
    using n by (simp add: avgBrightness_def js_div_def tb_def n_def)
  have ne: "normalizedEdgeStrength data = Finite (es / n)"
    using n by (simp add: normalizedEdgeStrength_def js_div_def es_def n_def)
  have a: "0 \<le> tb / n" "tb / n \<le> 255"
    using bd n by (simp_all add: field_simps)
  have s: "0 \<le> es / n" using bd n by simp
  define bs where "bs = 1 - \<bar>tb / n - 128\<bar> / 128"
  define ss where "ss = min (es / n / 20) 1"
  have bs: "0 \<le> bs" "bs \<le> 1"
    using a by (simp_all add: bs_def abs_le_iff field_simps)
  have ss: "0 \<le> ss" "ss \<le> 1"
    using s by (simp_all add: ss_def)
  have "qualityOfData data = Finite ((bs + ss) / 2)"
    by (simp add: qualityOfData_def avg ne bs_def ss_def)
  moreover have "0 \<le> (bs + ss) / 2" "(bs + ss) / 2 \<le> 1"
    using bs ss by simp_all
  ultimately show ?thesis by blast
qed

text \<open>
  The arithmetic has no guard of its own: on no bytes at all both quotients are 0/0.
  No canvas leads there, since \<^verbatim>\<open>getImageData\<close> has thrown before.
\<close>

lemma qualityOfData_Nil: "qualityOfData [] = NotANumber"
  by (simp add: qualityOfData_def avgBrightness_def normalizedEdgeStrength_def
      pixelCount_def js_div_def)

lemma calculatePhotoQuality_finite:
  assumes "0 < canvas_width cv" "0 < canvas_height cv"
    "length (bitmap cv) = 4 * canvas_width cv * canvas_height cv"
  shows "\<exists>q. calculatePhotoQuality cv = Inr (Finite q) \<and> 0 \<le> q \<and> q \<le> 1"
proof -
  from assms have "bitmap cv \<noteq> []" by auto
  from qualityOfData_finite [OF this] assms(1,2) show ?thesis
    by (simp add: calculatePhotoQuality_def getImageData_def)
qed

lemma calculatePhotoQuality_throws:
  assumes "canvas_width cv = 0 \<or> canvas_height cv = 0"
  shows "calculatePhotoQuality cv = Inl IndexSizeError"
  using assms by (auto simp: calculatePhotoQuality_def getImageData_def)

text \<open>
  C6. On every canvas with at least one pixel the scorer returns a finite score, between
  0 and 1. On a canvas of width or height zero it returns nothing: the exception thrown
  by \<^verbatim>\<open>getImageData\<close>, its first statement, leaves the function before any arithmetic,
  so that no NaN is produced. (The error is the platform's; the function has no check of
  its own.)
\<close>

theorem calculatePhotoQuality_total:
  "(0 < canvas_width cv \<and> 0 < canvas_height cv
      \<and> length (bitmap cv) = 4 * canvas_width cv * canvas_height cv
      \<longrightarrow> (\<exists>q. calculatePhotoQuality cv = Inr (Finite q) \<and> 0 \<le> q \<and> q \<le> 1))
   \<and> (canvas_width cv = 0 \<or> canvas_height cv = 0
      \<longrightarrow> calculatePhotoQuality cv = Inl IndexSizeError
          \<and> calculatePhotoQuality cv \<noteq> Inr NotANumber)"
  using calculatePhotoQuality_finite [of cv] calculatePhotoQuality_throws [of cv] by auto

theorem calculatePhotoQuality_total_witness:
  "calculatePhotoQuality \<lparr>canvas_width = 1, canvas_height = 1, bitmap = [10, 20, 30, 255]\<rparr>
     = Inr (Finite 0.078125)
   \<and> (\<exists>q. calculatePhotoQuality
             \<lparr>canvas_width = 1, canvas_height = 1, bitmap = [10, 20, 30, 255]\<rparr>
           = Inr (Finite q) \<and> 0 \<le> q \<and> q \<le> 1)
   \<and> calculatePhotoQuality \<lparr>canvas_width = 0, canvas_height = 0, bitmap = []\<rparr>
     = Inl IndexSizeError"
proof -
  let ?cv = "\<lparr>canvas_width = 1, canvas_height = 1, bitmap = [10, 20, 30, 255]\<rparr>"
  have v: "calculatePhotoQuality ?cv = Inr (Finite 0.078125)"
    by (simp add: calculatePhotoQuality_def getImageData_def qualityOfData_def
        avgBrightness_def normalizedEdgeStrength_def pixelCount_def js_div_def)
  have pre: "0 < canvas_width ?cv \<and> 0 < canvas_height ?cv
      \<and> length (bitmap ?cv) = 4 * canvas_width ?cv * canvas_height ?cv"
    by simp
  have ex: "\<exists>q. calculatePhotoQuality ?cv = Inr (Finite q) \<and> 0 \<le> q \<and> q \<le> 1"
    using calculatePhotoQuality_total [of ?cv] pre by blast
  have zero: "canvas_width \<lparr>canvas_width = 0, canvas_height = 0, bitmap = []\<rparr> = 0"
    by simp
  have thr: "calculatePhotoQuality \<lparr>canvas_width = 0, canvas_height = 0, bitmap = []\<rparr>
     = Inl IndexSizeError"
    using calculatePhotoQuality_total
      [of "\<lparr>canvas_width = 0, canvas_height = 0, bitmap = []\<rparr>"] zero by blast
  from v ex thr show ?thesis by blast
qed

section \<open>Properties of the photo collection\<close>

text \<open>With the comparator of \<^verbatim>\<open>getBestPhotos\<close>, the sort is a stable sort by negated score.\<close>

lemma insertBy_insort_key:
  "insertBy (\<lambda>a b. f b - f a) x ys = insort_key (\<lambda>p. - f p) x ys"
  by (induction ys) simp_all

lemma array_sort_sort_key:
  "array_sort (\<lambda>a b. f b - f a) xs = sort_key (\<lambda>p. - f p) xs"
  by (induction xs) (simp_all add: array_sort_def sort_key_def insertBy_insort_key)

lemma array_slice_prefix: "array_slice 0 (int n) xs = take n xs"
  by (simp add: array_slice_def slice_index_def Let_def min_def)

lemma getBestPhotos_take:
  "getBestPhotos (int n) c = take n (sort_key (\<lambda>p. - qualityScore p) c)"
  by (simp add: getBestPhotos_def array_sort_sort_key array_slice_prefix)

lemma sorted_by_score:
  "sorted_wrt (\<lambda>a b. qualityScore b \<le> qualityScore a) (sort_key (\<lambda>p. - qualityScore p) c)"
proof -
  have "sorted (map (\<lambda>p. - qualityScore p) (sort_key (\<lambda>p. - qualityScore p) c))"
    by (rule sorted_sort_key)
  then show ?thesis by (simp add: sorted_map)
qed

lemma getBestPhotos_length: "length (getBestPhotos (int n) c) = min n (length c)"
  by (simp add: getBestPhotos_take min.commute)

lemma getBestPhotos_sorted:
  "sorted_wrt (\<lambda>a b. qualityScore b \<le> qualityScore a) (getBestPhotos (int n) c)"
  unfolding getBestPhotos_take by (rule sorted_wrt_take [OF sorted_by_score])

lemma getBestPhotos_stable:
  "prefix (filter (\<lambda>p. qualityScore p = k) (getBestPhotos (int n) c))
          (filter (\<lambda>p. qualityScore p = k) c)"
proof -
  let ?s = "sort_key (\<lambda>p. - qualityScore p) c"
  have "prefix (take n ?s) ?s" by (rule take_is_prefix)
  then have "prefix (filter (\<lambda>p. qualityScore p = k) (take n ?s))
                    (filter (\<lambda>p. qualityScore p = k) ?s)"
    by (rule filter_mono_prefix)
  moreover have "filter (\<lambda>p. qualityScore p = k) ?s = filter (\<lambda>p. qualityScore p = k) c"
    using sort_key_stable [of "\<lambda>p. - qualityScore p" "- k" c] by simp
  ultimately show ?thesis by (simp add: getBestPhotos_take)
qed

lemma getBestPhotos_best:
  "\<exists>rest. mset (getBestPhotos (int n) c @ rest) = mset c
        \<and> (\<forall>a \<in> set (getBestPhotos (int n) c). \<forall>b \<in> set rest.
              qualityScore b \<le> qualityScore a)"
proof -
  let ?s = "sort_key (\<lambda>p. - qualityScore p) c"
  have "sorted_wrt (\<lambda>a b. qualityScore b \<le> qualityScore a) (take n ?s @ drop n ?s)"
    using sorted_by_score [of c] by simp
  then have "\<forall>a \<in> set (take n ?s). \<forall>b \<in> set (drop n ?s). qualityScore b \<le> qualityScore a"
    unfolding sorted_wrt_append by blast
  moreover have "mset (take n ?s @ drop n ?s) = mset c" by simp
  ultimately show ?thesis unfolding getBestPhotos_take by blast
qed

lemma getBestPhotos_example:
  "getBestPhotos 2 [scored ''a'' 0.2, scored ''b'' 0.9, scored ''c'' 0.5]
     = [scored ''b'' 0.9, scored ''c'' 0.5]"
  by (simp add: getBestPhotos_def array_sort_def array_slice_def slice_index_def scored_def)

text \<open>
  C7. For every collection and every number \<open>n\<close> of photos asked for, \<^verbatim>\<open>getBestPhotos\<close>
  returns \<open>min n |collection|\<close> photos, in descending order of quality score; photos of
  equal score keep their insertion order; the photos returned are taken from the
  collection and none of those left out scores higher than one returned. On scores
  0.2, 0.9, 0.5 and \<open>n = 2\<close> it returns the photos scoring 0.9 and 0.5, in that order.
\<close>

theorem getBestPhotos_stable_top:
  "length (getBestPhotos (int n) c) = min n (length c)
   \<and> sorted_wrt (\<lambda>a b. qualityScore b \<le> qualityScore a) (getBestPhotos (int n) c)
   \<and> (\<forall>k. prefix (filter (\<lambda>p. qualityScore p = k) (getBestPhotos (int n) c))
                   (filter (\<lambda>p. qualityScore p = k) c))
   \<and> (\<exists>rest. mset (getBestPhotos (int n) c @ rest) = mset c
         \<and> (\<forall>a \<in> set (getBestPhotos (int n) c). \<forall>b \<in> set rest.
               qualityScore b \<le> qualityScore a))
   \<and> getBestPhotos 2 [scored ''a'' 0.2, scored ''b'' 0.9, scored ''c'' 0.5]
       = [scored ''b'' 0.9, scored ''c'' 0.5]"
  using getBestPhotos_length getBestPhotos_sorted getBestPhotos_stable getBestPhotos_best
    getBestPhotos_example by blast

theorem getBestPhotos_stable_top_witness:
  "length (getBestPhotos 2 [scored ''a'' 0.5, scored ''b'' 0.9, scored ''c'' 0.5]) = 2
   \<and> getBestPhotos 2 [scored ''a'' 0.5, scored ''b'' 0.9, scored ''c'' 0.5]
       = [scored ''b'' 0.9, scored ''a'' 0.5]
   \<and> prefix (filter (\<lambda>p. qualityScore p = 0.5)
               (getBestPhotos 2 [scored ''a'' 0.5, scored ''b'' 0.9, scored ''c'' 0.5]))
            [scored ''a'' 0.5, scored ''c'' 0.5]"
proof -
  let ?ps = "[scored ''a'' 0.5, scored ''b'' 0.9, scored ''c'' 0.5]"
  have f: "filter (\<lambda>p. qualityScore p = 0.5) ?ps = [scored ''a'' 0.5, scored ''c'' 0.5]"
    by (simp add: scored_def)
  have v: "getBestPhotos 2 ?ps = [scored ''b'' 0.9, scored ''a'' 0.5]"
    by (simp add: getBestPhotos_def array_sort_def array_slice_def slice_index_def
        scored_def)
  note t = getBestPhotos_stable_top [of 2 ?ps, unfolded of_nat_numeral]
  have "length (getBestPhotos 2 ?ps) = min 2 (length ?ps)"
    using t by blast
  then have l: "length (getBestPhotos 2 ?ps) = 2"
    by simp
  have "prefix (filter (\<lambda>p. qualityScore p = 0.5) (getBestPhotos 2 ?ps))
               (filter (\<lambda>p. qualityScore p = 0.5) ?ps)"
    using t by blast
  then have pf: "prefix (filter (\<lambda>p. qualityScore p = 0.5) (getBestPhotos 2 ?ps))
               [scored ''a'' 0.5, scored ''c'' 0.5]"
    unfolding f .
  from l v pf show ?thesis by (intro conjI)
qed

section \<open>Properties of the print layout\<close>

lemma grid: "cols = 5" "rows = 5" "totalSlots = 25"
  by (simp_all add: cols_def rows_def totalSlots_def pageWidth_def pageHeight_def
      photoWidth_def photoHeight_def)

lemma layout_slots:
  assumes "photos \<noteq> []"
  shows "\<exists>page. generateLayout True photos = Some page
       \<and> map placed (drawn page) = take (min (length photos) totalSlots) photos
       \<and> (\<forall>i < length (drawn page).
             drawn page ! i =
               \<lparr>placed = photos ! i,
                at_x = startX + real (i mod cols) * (photoWidth + margin),
                at_y = startY + real (i div cols) * (photoHeight + margin),
                width = photoWidth, height = photoHeight\<rparr>)"
  using assms
  apply (simp add: generateLayout_def array_slice_prefix)
  apply (auto simp: drawPhoto_def Let_def nth_enumerate_eq comp_def map_idI min_def
       intro!: nth_equalityI)
  done

lemma layout_empty: "drawnPhotos (generateLayout True []) = []"
  by (simp add: generateLayout_def drawnPhotos_def)

text \<open>
  C9. The grid has \<open>cols = \<lfloor>pageWidth / (slotWidth + margin)\<rfloor>\<close> columns,
  \<open>rows = \<lfloor>pageHeight / (slotHeight + margin)\<rfloor>\<close> rows and \<open>cols * rows\<close> slots, which for
  the page of 2480 by 3508, slots of 413 by 531 and a margin of 60 are 5, 5 and 25. For
  every photo list, with the canvas at hand, the photos drawn are exactly the first
  \<open>min |photos| capacity\<close> photos, the \<open>i\<close>-th one in row \<open>i div cols\<close> and column
  \<open>i mod cols\<close> (row-major order); with fewer photos than slots the other slots receive
  nothing, and a non-empty list always yields a page.
\<close>

theorem generateLayout_fills_slots_in_order:
  "cols = nat \<lfloor>pageWidth / (photoWidth + margin)\<rfloor>
   \<and> rows = nat \<lfloor>pageHeight / (photoHeight + margin)\<rfloor>
   \<and> totalSlots = cols * rows
   \<and> pageWidth = 2480 \<and> pageHeight = 3508 \<and> photoWidth = 413 \<and> photoHeight = 531
   \<and> margin = 60 \<and> cols = 5 \<and> rows = 5 \<and> totalSlots = 25
   \<and> map placed (drawnPhotos (generateLayout True photos))
       = take (min (length photos) totalSlots) photos
   \<and> (\<forall>i < length (drawnPhotos (generateLayout True photos)).
         drawnPhotos (generateLayout True photos) ! i =
           \<lparr>placed = photos ! i,
            at_x = startX + real (i mod cols) * (photoWidth + margin),
            at_y = startY + real (i div cols) * (photoHeight + margin),
            width = photoWidth, height = photoHeight\<rparr>)
   \<and> (length photos < totalSlots
        \<longrightarrow> length (drawnPhotos (generateLayout True photos)) = length photos)
   \<and> (photos \<noteq> [] \<longrightarrow> (\<exists>page. generateLayout True photos = Some page))"
proof -
  have dims: "cols = nat \<lfloor>pageWidth / (photoWidth + margin)\<rfloor>
     \<and> rows = nat \<lfloor>pageHeight / (photoHeight + margin)\<rfloor> \<and> totalSlots = cols * rows
     \<and> pageWidth = 2480 \<and> pageHeight = 3508 \<and> photoWidth = 413 \<and> photoHeight = 531
     \<and> margin = 60 \<and> cols = 5 \<and> rows = 5 \<and> totalSlots = 25"
    by (simp add: grid) (simp add: pageWidth_def pageHeight_def photoWidth_def
        photoHeight_def margin_def)
  show ?thesis
  proof (cases "photos = []")
    case True
    then show ?thesis using dims by (simp add: layout_empty)
  next
    case False
    from layout_slots [OF False] obtain page where
      p: "generateLayout True photos = Some page"
      and m: "map placed (drawn page) = take (min (length photos) totalSlots) photos"
      and a: "\<forall>i < length (drawn page).
             drawn page ! i =
               \<lparr>placed = photos ! i,
                at_x = startX + real (i mod cols) * (photoWidth + margin),
                at_y = startY + real (i div cols) * (photoHeight + margin),
                width = photoWidth, height = photoHeight\<rparr>"
      by blast
    have d: "drawnPhotos (generateLayout True photos) = drawn page"
      by (simp add: p drawnPhotos_def)
    have l: "length (drawn page) = min (length photos) totalSlots"
      using arg_cong [OF m, of length] by simp
    show ?thesis
      unfolding d using dims m a l p by simp
  qed
qed

theorem generateLayout_fills_slots_in_order_witness:
  "map placed (drawnPhotos (generateLayout True
       [scored ''a'' 0.2, scored ''b'' 0.9, scored ''c'' 0.5]))
     = [scored ''a'' 0.2, scored ''b'' 0.9, scored ''c'' 0.5]
   \<and> length [scored ''a'' 0.2, scored ''b'' 0.9, scored ''c'' 0.5] < totalSlots
   \<and> length (drawnPhotos (generateLayout True
       [scored ''a'' 0.2, scored ''b'' 0.9, scored ''c'' 0.5])) = 3
   \<and> drawnPhotos (generateLayout True
       [scored ''a'' 0.2, scored ''b'' 0.9, scored ''c'' 0.5]) ! 2
     = \<lparr>placed = scored ''c'' 0.5, at_x = 1033.5, at_y = 306.5, width = 413, height = 531\<rparr>"
proof -
  let ?ps = "[scored ''a'' 0.2, scored ''b'' 0.9, scored ''c'' 0.5]"
  note t = generateLayout_fills_slots_in_order [of ?ps]
  have len: "length (drawnPhotos (generateLayout True ?ps)) = 3"
    using t by simp
  have m: "map placed (drawnPhotos (generateLayout True ?ps)) = ?ps"
    using t by simp
  have "drawnPhotos (generateLayout True ?ps) ! 2 =
           \<lparr>placed = ?ps ! 2,
            at_x = startX + real (2 mod cols) * (photoWidth + margin),
            at_y = startY + real (2 div cols) * (photoHeight + margin),
            width = photoWidth, height = photoHeight\<rparr>"
    using t len by simp
  then have e: "drawnPhotos (generateLayout True ?ps) ! 2
     = \<lparr>placed = scored ''c'' 0.5, at_x = 1033.5, at_y = 306.5, width = 413, height = 531\<rparr>"
    by (simp add: grid startX_def startY_def pageWidth_def pageHeight_def photoWidth_def
        photoHeight_def margin_def)
  from len m e show ?thesis by (simp add: grid)
qed

section \<open>Properties of the gate\<close>

lemmas app_defs = handlePoseDetected_def handleCountdownComplete_def handleManualCapture_def
  startCountdown_def rerender_def countdown_effect_def countdown_tick_def addPhoto_def Let_def

lemma good_fullPose: "isGoodPose fullPose"
  by (simp add: isGoodPose_def fullPose_def facePose_def visibleFacePoints_def
      requiredPoints_def visiblePoint_def findPart_def kp_def)

text \<open>
  The gate's test is not the evaluator's verdict: a face in full view with a shoulder out
  of the picture passes the first and fails the second.
\<close>

lemma gate_test_differs:
  "isGoodPose facePose \<and> \<not> isCorrect (evaluatePoseQuality facePose)"
proof -
  have g: "isGoodPose facePose"
    by (simp add: isGoodPose_def visible_facePose requiredPoints_def)
  have h: "findPart (keypoints facePose) ''leftShoulder'' = None"
    by (simp add: findPart_def facePose_def kp_def)
  have "\<not> isCorrect (evaluatePoseQuality facePose)"
    by (simp add: evaluatePoseQuality_def Let_def h)
  with g show ?thesis by simp
qed

lemma bad_dimPose: "\<not> isGoodPose dimPose"
  by (simp add: isGoodPose_def dimPose_def visibleFacePoints_def
      requiredPoints_def visiblePoint_def findPart_def kp_def)

lemma stateAt_0: "stateAt s0 es 0 = s0"
  by (simp add: stateAt_def exec_def)

lemma stateAt_Suc:
  "k < length es \<Longrightarrow> stateAt s0 es (Suc k) = fst (step (stateAt s0 es k) (es ! k))"
  by (simp add: stateAt_def exec_def take_Suc_conv_app_nth)

text \<open>What one event does to the gate's two refs, by what the gate sees of it.\<close>

lemma step_unseen:
  assumes "seen s e = None"
  shows "wasCorrectPose (fst (step s e)) = wasCorrectPose s
       \<and> poseStableTime (fst (step s e)) = poseStableTime s \<and> \<not> fires s e"
  using assms
  by (cases e) (auto simp: seen_def processed_def fires_def app_defs
      split: option.splits if_splits prod.splits bool.splits)

lemma step_seen_bad:
  assumes "seen s e = Some False"
  shows "\<not> wasCorrectPose (fst (step s e)) \<and> \<not> fires s e"
  using assms
  by (cases e) (auto simp: seen_def processed_def fires_def app_defs split: if_splits)

lemma step_seen_good:
  assumes "seen s e = Some True"
  shows "if \<not> wasCorrectPose s then
           wasCorrectPose (fst (step s e)) \<and> poseStableTime (fst (step s e)) = clock s
           \<and> \<not> fires s e
         else if 2000 < clock s - poseStableTime s then
           \<not> wasCorrectPose (fst (step s e)) \<and> fires s e
         else wasCorrectPose (fst (step s e))
           \<and> poseStableTime (fst (step s e)) = poseStableTime s \<and> \<not> fires s e"
  using assms
  by (cases e) (auto simp: seen_def processed_def fires_def app_defs split: if_splits)

lemma fires_needs:
  assumes "fires s e"
  shows "seen s e = Some True \<and> wasCorrectPose s \<and> 2000 < clock s - poseStableTime s
       \<and> \<not> wasCorrectPose (fst (step s e))"
proof (cases "seen s e")
  case None
  with step_unseen [of s e] assms show ?thesis by simp
next
  case (Some g)
  show ?thesis
  proof (cases g)
    case True
    with Some step_seen_good [of s e] assms show ?thesis
      by (simp split: if_splits)
  next
    case False
    with Some step_seen_bad [of s e] assms show ?thesis by simp
  qed
qed

lemma holdFrom_start:
  assumes "seen (stateAt s0 es k) (es ! k) = Some True" "\<not> wasCorrectPose (stateAt s0 es k)"
  shows "holdFrom s0 es k (Suc k)"
proof -
  have "{k<..<Suc k} = {}" by auto
  with assms show ?thesis by (simp add: holdFrom_def)
qed

lemma holdFrom_extend:
  assumes "holdFrom s0 es j k" "seen (stateAt s0 es k) (es ! k) \<noteq> Some False"
    "\<not> fires (stateAt s0 es k) (es ! k)"
  shows "holdFrom s0 es j (Suc k)"
proof -
  from assms(1) have jk: "j < k" by (simp add: holdFrom_def)
  then have "{j<..<Suc k} = insert k {j<..<k}" by auto
  with assms show ?thesis by (simp add: holdFrom_def)
qed

text \<open>
  While the gate is stabilising, \<^verbatim>\<open>poseStableTime\<close> is the time of the sample that opened
  the window still open.
\<close>

lemma window_invariant:
  assumes "\<not> wasCorrectPose s0"
  shows "k \<le> length es \<Longrightarrow> wasCorrectPose (stateAt s0 es k) \<Longrightarrow>
         \<exists>j. holdFrom s0 es j k \<and> poseStableTime (stateAt s0 es k) = clock (stateAt s0 es j)"
proof (induction k)
  case 0
  with assms show ?case by (simp add: stateAt_0)
next
  case (Suc k)
  let ?s = "stateAt s0 es k"
  let ?e = "es ! k"
  from Suc.prems have k: "k < length es" by simp
  have nxt: "stateAt s0 es (Suc k) = fst (step ?s ?e)"
    by (rule stateAt_Suc [OF k])
  from Suc.prems have was': "wasCorrectPose (fst (step ?s ?e))"
    by (simp add: nxt)
  show ?case
  proof (cases "seen ?s ?e")
    case None
    from step_unseen [OF None] was' have w: "wasCorrectPose ?s"
      and p: "poseStableTime (fst (step ?s ?e)) = poseStableTime ?s"
      and f: "\<not> fires ?s ?e" by simp_all
    from Suc.IH w k obtain j where j: "holdFrom s0 es j k"
      "poseStableTime ?s = clock (stateAt s0 es j)" by auto
    have "holdFrom s0 es j (Suc k)"
      using holdFrom_extend [OF j(1) _ f] None by simp
    with j(2) p show ?thesis by (auto simp: nxt)
  next
    case (Some g)
    show ?thesis
    proof (cases g)
      case False
      with Some step_seen_bad [of ?s ?e] was' show ?thesis by simp
    next
      case True
      with Some have sg: "seen ?s ?e = Some True" by simp
      show ?thesis
      proof (cases "wasCorrectPose ?s")
        case False
        from step_seen_good [OF sg] False
        have p: "poseStableTime (fst (step ?s ?e)) = clock ?s" by simp
        have "holdFrom s0 es k (Suc k)"
          by (rule holdFrom_start [OF sg False])
        with p show ?thesis by (auto simp: nxt)
      next
        case w: True
        from step_seen_good [OF sg] w was'
        have p: "poseStableTime (fst (step ?s ?e)) = poseStableTime ?s"
          and f: "\<not> fires ?s ?e" by (simp_all split: if_splits)
        from Suc.IH w k obtain j where j: "holdFrom s0 es j k"
          "poseStableTime ?s = clock (stateAt s0 es j)" by auto
        have "holdFrom s0 es j (Suc k)"
          using holdFrom_extend [OF j(1) _ f] sg by simp
        with j(2) p show ?thesis by (auto simp: nxt)
      qed
    qed
  qed
qed

lemma trigger_closes_window:
  assumes "\<not> wasCorrectPose s0" "k < length es" "fires (stateAt s0 es k) (es ! k)"
  shows "\<exists>j. holdFrom s0 es j k
           \<and> seen (stateAt s0 es k) (es ! k) = Some True
           \<and> 2000 < clock (stateAt s0 es k) - clock (stateAt s0 es j)
           \<and> \<not> wasCorrectPose (stateAt s0 es (Suc k))"
proof -
  let ?s = "stateAt s0 es k"
  from fires_needs [OF assms(3)]
  have sg: "seen ?s (es ! k) = Some True" and w: "wasCorrectPose ?s"
    and t: "2000 < clock ?s - poseStableTime ?s"
    and n: "\<not> wasCorrectPose (fst (step ?s (es ! k)))" by simp_all
  from window_invariant [OF assms(1) _ w] assms(2)
  obtain j where j: "holdFrom s0 es j k" "poseStableTime ?s = clock (stateAt s0 es j)"
    by auto
  from n have "\<not> wasCorrectPose (stateAt s0 es (Suc k))"
    by (simp add: stateAt_Suc [OF assms(2)])
  with j sg t show ?thesis by auto
qed

text \<open>
  C1. In every run of the application that starts with the gate not stabilising, a trigger
  (the start of a countdown) at event \<open>k\<close> is the end of a stability window: an earlier
  good sample \<open>j\<close> reached the gate while it was not stabilising, every sample the gate
  has seen since was good, no trigger was emitted in between, more than 2000 ms separate
  the two samples, and after the trigger the gate is not stabilising, so that a window
  ends with its one trigger. A bad sample seen by the gate puts it back to not stabilising
  and emits nothing; an event the gate does not see (any event but a pose sample, or a
  sample dropped by the early returns) leaves its refs alone. Good means here the gate's
  own test, four of the five facial landmarks visible.
\<close>

theorem trigger_needs_stable_hold:
  "(\<not> wasCorrectPose s0 \<and> k < length es \<and> fires (stateAt s0 es k) (es ! k) \<longrightarrow>
      (\<exists>j. holdFrom s0 es j k
          \<and> seen (stateAt s0 es k) (es ! k) = Some True
          \<and> 2000 < clock (stateAt s0 es k) - clock (stateAt s0 es j)
          \<and> \<not> wasCorrectPose (stateAt s0 es (Suc k))))
   \<and> (seen s e = Some False \<longrightarrow> \<not> wasCorrectPose (fst (step s e)) \<and> \<not> fires s e)
   \<and> (fires s e \<longrightarrow> seen s e = Some True \<and> wasCorrectPose s
         \<and> 2000 < clock s - poseStableTime s \<and> \<not> wasCorrectPose (fst (step s e)))
   \<and> (seen s e = None \<longrightarrow> wasCorrectPose (fst (step s e)) = wasCorrectPose s
         \<and> poseStableTime (fst (step s e)) = poseStableTime s \<and> \<not> fires s e)"
  using trigger_closes_window [of s0 k es] step_seen_bad [of s e] fires_needs [of s e]
    step_unseen [of s e]
  by blast

lemma hold_fires: "fires (stateAt (initialApp 100000) hold 5) (hold ! 5)"
  by (simp add: stateAt_def exec_def hold_def fires_def initialApp_def app_defs
      good_fullPose)

lemma hold_interrupted:
  "seen (stateAt (initialApp 100000) hold 3) (PoseDetected dimPose) = Some False"
  by (simp add: stateAt_def exec_def hold_def seen_def processed_def initialApp_def
      app_defs good_fullPose bad_dimPose)

theorem trigger_needs_stable_hold_witness:
  "\<not> wasCorrectPose (initialApp 100000) \<and> 5 < length hold
   \<and> fires (stateAt (initialApp 100000) hold 5) (hold ! 5)
   \<and> (\<exists>j. holdFrom (initialApp 100000) hold j 5
         \<and> 2000 < clock (stateAt (initialApp 100000) hold 5)
                    - clock (stateAt (initialApp 100000) hold j))
   \<and> seen (stateAt (initialApp 100000) hold 3) (PoseDetected dimPose) = Some False
   \<and> \<not> wasCorrectPose
         (fst (step (stateAt (initialApp 100000) hold 3) (PoseDetected dimPose)))"
proof -
  have pre: "\<not> wasCorrectPose (initialApp 100000) \<and> 5 < length hold
     \<and> fires (stateAt (initialApp 100000) hold 5) (hold ! 5)"
    using hold_fires by (simp add: initialApp_def hold_def)
  note t = trigger_needs_stable_hold [of "initialApp 100000" 5 hold
      "stateAt (initialApp 100000) hold 3" "PoseDetected dimPose"]
  from t pre have w: "\<exists>j. holdFrom (initialApp 100000) hold j 5
         \<and> 2000 < clock (stateAt (initialApp 100000) hold 5)
                    - clock (stateAt (initialApp 100000) hold j)"
    by blast
  from t hold_interrupted have b: "\<not> wasCorrectPose
         (fst (step (stateAt (initialApp 100000) hold 3) (PoseDetected dimPose)))"
    by blast
  from pre w hold_interrupted b show ?thesis by blast
qed

section \<open>Properties of the pipeline: spacing of triggers\<close>

lemma after_trigger_idle: "after_trigger T s \<Longrightarrow> idle_consistent s"
  by (simp add: after_trigger_def idle_consistent_def split: if_splits)

lemma step_idle_consistent:
  assumes "idle_consistent s"
  shows "idle_consistent (fst (step s e))"
  using assms
  by (cases e) (auto simp: idle_consistent_def idle_def app_defs
      split: option.splits if_splits)

lemma step_opens:
  assumes "idle_consistent s" "fires s e"
  shows "after_trigger (clock s) (fst (step s e))"
  using assms
  by (cases e) (auto simp: idle_consistent_def idle_def after_trigger_def fires_def app_defs
      split: option.splits if_splits)

lemma step_after_fires:
  assumes "after_trigger T s" "fires s e"
  shows "T + 5000 \<le> clock s"
  using assms
  by (cases e) (auto simp: after_trigger_def idle_def fires_def app_defs
      split: option.splits if_splits)

lemma step_after_keeps:
  assumes "after_trigger T s" "\<not> fires s e"
  shows "after_trigger T (fst (step s e))"
  using assms
  by (cases e) (auto simp: after_trigger_def idle_def fires_def app_defs
      split: option.splits if_splits)

lemma triggers_Nil: "triggers s [] = []"
  by (simp add: triggers_def)

lemma snd_step_cases: "snd (step s e) = [] \<or> snd (step s e) = [StartCountdown]
    \<or> snd (step s e) = [CountdownComplete]"
  by (cases e) (auto simp: app_defs split: option.splits if_splits prod.splits bool.splits)

lemma triggers_Cons:
  "triggers s (e # es) =
     (if fires s e then clock s # triggers (fst (step s e)) es
      else triggers (fst (step s e)) es)"
  using snd_step_cases [of s e]
  by (auto simp: triggers_def fires_def)

lemma triggers_after:
  assumes "after_trigger T s"
  shows "\<forall>t \<in> set (triggers s es). T + 5000 \<le> t"
  using assms
proof (induction es arbitrary: s T)
  case Nil
  then show ?case by (simp add: triggers_Nil)
next
  case (Cons e es)
  show ?case
  proof (cases "fires s e")
    case True
    have now: "T + 5000 \<le> clock s"
      by (rule step_after_fires [OF Cons.prems True])
    have "after_trigger (clock s) (fst (step s e))"
      by (rule step_opens [OF after_trigger_idle [OF Cons.prems] True])
    then have "\<forall>t \<in> set (triggers (fst (step s e)) es). clock s + 5000 \<le> t"
      by (rule Cons.IH)
    with now True show ?thesis
      by (auto simp: triggers_Cons)
  next
    case False
    have "after_trigger T (fst (step s e))"
      by (rule step_after_keeps [OF Cons.prems False])
    then have "\<forall>t \<in> set (triggers (fst (step s e)) es). T + 5000 \<le> t"
      by (rule Cons.IH)
    with False show ?thesis
      by (simp add: triggers_Cons)
  qed
qed

lemma triggers_spaced:
  assumes "idle_consistent s"
  shows "sorted_wrt (\<lambda>a b. a + 5000 \<le> b) (triggers s es)"
  using assms
proof (induction es arbitrary: s)
  case Nil
  then show ?case by (simp add: triggers_Nil)
next
  case (Cons e es)
  have rest: "sorted_wrt (\<lambda>a b. a + 5000 \<le> b) (triggers (fst (step s e)) es)"
    by (rule Cons.IH [OF step_idle_consistent [OF Cons.prems]])
  show ?case
  proof (cases "fires s e")
    case True
    have "\<forall>t \<in> set (triggers (fst (step s e)) es). clock s + 5000 \<le> t"
      by (rule triggers_after [OF step_opens [OF Cons.prems True]])
    with rest True show ?thesis by (simp add: triggers_Cons)
  next
    case False
    with rest show ?thesis by (simp add: triggers_Cons)
  qed
qed

lemma initial_idle: "idle_consistent (initialApp t0)"
  by (simp add: idle_consistent_def idle_def initialApp_def)

lemma run_session:
  "run (initialApp 100000) session =
     [(102001, StartCountdown), (105001, CountdownComplete), (112002, StartCountdown)]"
  by (simp add: session_def initialApp_def app_defs good_fullPose)

text \<open>
  C2. In every run of the application from its initial state, whatever the events and
  however densely the pose samples arrive, the times of the triggers emitted by the gate
  are pairwise at least 5000 ms apart. Time only moves forward (\<open>Advance\<close>), and a call of
  the countdown's interval is not made before it is due. After a trigger three calls of
  the interval, no earlier than 3000 ms later, must end the countdown before the gate
  handles a sample again, and a new window must then stay open for more than 2000 ms;
  a successful capture adds its cooldown of 5000 ms.
\<close>

theorem trigger_spacing:
  "sorted_wrt (\<lambda>a b. a + 5000 \<le> b) (triggers (initialApp t0) es)"
  by (rule triggers_spaced [OF initial_idle])

theorem trigger_spacing_witness:
  "triggers (initialApp 100000) session = [102001, 112002]
   \<and> sorted_wrt (\<lambda>a b. a + 5000 \<le> b) [102001, 112002 :: int]"
proof -
  have t: "triggers (initialApp 100000) session = [102001, 112002]"
    by (simp add: triggers_def run_session)
  from trigger_spacing [of 100000 session] show ?thesis
    unfolding t by simp
qed

section \<open>Properties of the pipeline: the cooldown\<close>

text \<open>During the cooldown a sample changes nothing but the pose on display.\<close>

lemma cooldown_ignores:
  assumes "clock s - lastCaptureTime s < 5000"
  shows "handlePoseDetected p s = (s\<lparr>currentPose := Some p\<rparr>, [])"
  using assms by (simp add: handlePoseDetected_def Let_def)

lemma automatic_capture_sets_cooldown:
  assumes "currentVideo s"
  shows "lastCaptureTime (handleCountdownComplete (Some ph) s) = clock s"
  using assms by (simp add: handleCountdownComplete_def Let_def)

lemma manual_capture_keeps_lastCaptureTime:
  "lastCaptureTime (handleManualCapture capture s) = lastCaptureTime s"
  by (simp add: handleManualCapture_def split: option.splits)

text \<open>
  C3 does not hold of a manual capture. \<^verbatim>\<open>handleManualCapture\<close> adds its photo without
  writing \<^verbatim>\<open>lastCaptureTime\<close>, which \<^verbatim>\<open>handleCountdownComplete\<close> does. After a manual
  capture at time 100000, the sample that arrives 100 ms later is handled by the gate and
  opens a stability window, and the sample 2101 ms after the capture emits a trigger.
\<close>

theorem manual_capture_starts_no_cooldown:
  "capturedPhotos (exec (initialApp 100000) [VideoReady, ManualCapture (Some (scored ''m'' 0.5))])
     = [scored ''m'' 0.5]
   \<and> lastCaptureTime (exec (initialApp 100000)
        [VideoReady, ManualCapture (Some (scored ''m'' 0.5))]) = 0
   \<and> wasCorrectPose (exec (initialApp 100000)
        [VideoReady, ManualCapture (Some (scored ''m'' 0.5)), Advance 100,
         PoseDetected fullPose])
   \<and> run (initialApp 100000)
        [VideoReady, ManualCapture (Some (scored ''m'' 0.5)), Advance 100,
         PoseDetected fullPose, Advance 2001, PoseDetected fullPose]
     = [(102101, StartCountdown)]"
  by (simp add: exec_def initialApp_def app_defs good_fullPose)

section \<open>Properties of the countdown\<close>

lemma three_calls:
  assumes "now + 1000 \<le> t1" "now + 2000 \<le> t2" "now + 3000 \<le> t3"
  shows "snd (calls 3 (countdown_effect True 3 now idle) [t1]) = 0
       \<and> snd (calls 3 (countdown_effect True 3 now idle) [t1, t2]) = 0
       \<and> calls 3 (countdown_effect True 3 now idle) [t1, t2, t3]
           = (\<lparr>count_state = 3, timer = Some (now + 4000)\<rparr>, 1)"
  using assms by (simp add: idle_def countdown_effect_def countdown_tick_def Let_def)

lemma tick_count:
  "timer c \<noteq> None \<Longrightarrow> 1 < count_state c \<Longrightarrow>
     snd (countdown_tick 3 t c) = False
     \<and> timer (fst (countdown_tick 3 t c)) \<noteq> None
     \<and> count_state c - 1 \<le> count_state (fst (countdown_tick 3 t c))"
  by (auto simp: countdown_tick_def Let_def split: option.splits)

text \<open>Fewer calls than the count complete nothing.\<close>

lemma calls_below_count:
  assumes "timer c \<noteq> None" "int (length ts) < count_state c"
  shows "snd (calls 3 c ts) = 0"
  using assms
proof (induction ts arbitrary: c)
  case Nil
  then show ?case by simp
next
  case (Cons t ts)
  from Cons.prems have "1 < count_state c" by simp
  from tick_count [OF Cons.prems(1) this, of t]
  have s: "snd (countdown_tick 3 t c) = False"
    "timer (fst (countdown_tick 3 t c)) \<noteq> None"
    "count_state c - 1 \<le> count_state (fst (countdown_tick 3 t c))" by simp_all
  from s(3) Cons.prems(2) have "int (length ts) < count_state (fst (countdown_tick 3 t c))"
    by simp
  from Cons.IH [OF s(2) this] s(1) show ?case
    by (simp add: Let_def)
qed

lemma few_calls:
  assumes "length ts < 3"
  shows "snd (calls 3 (countdown_effect True 3 now idle) ts) = 0"
  using assms
  by (intro calls_below_count) (simp_all add: countdown_effect_def idle_def)

lemma deactivate: "countdown_effect False 3 t c = idle"
  by (simp add: countdown_effect_def idle_def)

lemma calls_idle: "calls 3 idle ts = (idle, 0)"
  by (induction ts) (simp_all add: countdown_tick_def idle_def)

lemma step_timer_matches:
  assumes "timer_matches s"
  shows "timer_matches (fst (step s e))
       \<and> (snd (step s e) = [] \<and> isCountdownActive (fst (step s e)) = isCountdownActive s
          \<or> snd (step s e) = [StartCountdown] \<and> \<not> isCountdownActive s
              \<and> isCountdownActive (fst (step s e))
          \<or> snd (step s e) = [CountdownComplete] \<and> isCountdownActive s
              \<and> \<not> isCountdownActive (fst (step s e)))"
  using assms
  by (cases e) (auto simp: timer_matches_def app_defs
      split: option.splits if_splits prod.splits bool.splits)

lemma run_alternates:
  assumes "timer_matches s"
  shows "alternating (isCountdownActive s) (map snd (run s es))"
  using assms
proof (induction es arbitrary: s)
  case Nil
  then show ?case by simp
next
  case (Cons e es)
  from step_timer_matches [OF Cons.prems, of e]
  have m: "timer_matches (fst (step s e))" by simp
  have ih: "alternating (isCountdownActive (fst (step s e))) (map snd (run (fst (step s e)) es))"
    by (rule Cons.IH [OF m])
  from step_timer_matches [OF Cons.prems, of e] ih show ?case
    by (auto simp: comp_def)
qed

lemma initial_timer_matches: "timer_matches (initialApp t0)"
  by (simp add: timer_matches_def initialApp_def)

lemma completion_deactivates:
  "isCountdownActive (handleCountdownComplete capture s) = False
   \<and> countdown (handleCountdownComplete capture s) = idle"
  by (simp add: handleCountdownComplete_def Let_def deactivate split: option.splits)

text \<open>
  Left alone, a countdown of duration 3 activated at time \<open>now\<close> from rest behaves as
  meant: the first and the second call of its interval (due 1000 ms and 2000 ms after the
  activation) complete nothing, the third one calls \<^verbatim>\<open>onComplete\<close> and puts the count back
  to 3. Deactivated after fewer than three calls, the timer has completed nothing, holds
  no interval and has its count back at 3, and no later call completes anything. In the
  application \<^verbatim>\<open>onComplete\<close> deactivates the timer, so that in every run the starts of
  countdowns and their completions alternate: at most one completion for an activation.
\<close>

lemma countdown_undisturbed:
  "(now + 1000 \<le> t1 \<and> now + 2000 \<le> t2 \<and> now + 3000 \<le> t3 \<longrightarrow>
      snd (calls 3 (countdown_effect True 3 now idle) [t1]) = 0
      \<and> snd (calls 3 (countdown_effect True 3 now idle) [t1, t2]) = 0
      \<and> calls 3 (countdown_effect True 3 now idle) [t1, t2, t3]
          = (\<lparr>count_state = 3, timer = Some (now + 4000)\<rparr>, 1))
   \<and> (length ts < 3 \<longrightarrow>
        snd (calls 3 (countdown_effect True 3 now idle) ts) = 0
        \<and> countdown_effect False 3 t (fst (calls 3 (countdown_effect True 3 now idle) ts))
            = idle
        \<and> calls 3 idle ts' = (idle, 0))
   \<and> isCountdownActive (handleCountdownComplete capture s) = False
   \<and> countdown (handleCountdownComplete capture s) = idle
   \<and> alternating False (map snd (run (initialApp t0) es))"
  using three_calls [of now t1 t2 t3] few_calls [of ts now] deactivate calls_idle
    completion_deactivates [of capture s]
    run_alternates [OF initial_timer_matches, of t0 es]
  by (simp add: initialApp_def)

lemma exec_append: "exec s (xs @ ys) = exec (exec s xs) ys"
  by (simp add: exec_def)

lemma exec_Cons: "exec s (e # es) = exec (fst (step s e)) es"
  by (simp add: exec_def)

lemma run_append: "run s (xs @ ys) = run s xs @ run (exec s xs) ys"
  by (induction xs arbitrary: s) (simp_all add: exec_def)

text \<open>
  While the countdown is active, a sample restarts its interval: 100 ms after a restart
  no call is due before the sample and none after it.
\<close>

lemma sample_restarts:
  assumes "isCountdownActive s" "timer (countdown s) = Some (clock s + 1000)"
  shows "run s [Advance 100, Tick capture, PoseDetected p, Tick capture] = []
       \<and> isCountdownActive (exec s [Advance 100, Tick capture, PoseDetected p, Tick capture])
       \<and> timer (countdown (exec s [Advance 100, Tick capture, PoseDetected p, Tick capture]))
           = Some (clock (exec s [Advance 100, Tick capture, PoseDetected p, Tick capture])
                   + 1000)
       \<and> count_state (countdown (exec s [Advance 100, Tick capture, PoseDetected p,
            Tick capture])) = count_state (countdown s)"
  using assms by (simp add: exec_def app_defs)

lemma sampling_Suc:
  "sampling (Suc n) capture
     = [Advance 100, Tick capture, PoseDetected fullPose, Tick capture] @ sampling n capture"
  by (simp add: sampling_def)

lemma sampling_starves:
  assumes "isCountdownActive s" "timer (countdown s) = Some (clock s + 1000)"
  shows "run s (sampling n capture) = []
       \<and> isCountdownActive (exec s (sampling n capture))
       \<and> count_state (countdown (exec s (sampling n capture))) = count_state (countdown s)"
  using assms
proof (induction n arbitrary: s)
  case 0
  then show ?case by (simp add: sampling_def exec_def)
next
  case (Suc n)
  let ?r = "[Advance 100, Tick capture, PoseDetected fullPose, Tick capture]"
  note r = sample_restarts [OF Suc.prems, of capture fullPose]
  from r have a: "isCountdownActive (exec s ?r)"
    and t: "timer (countdown (exec s ?r)) = Some (clock (exec s ?r) + 1000)"
    and c: "count_state (countdown (exec s ?r)) = count_state (countdown s)"
    and e: "run s ?r = []" by simp_all
  from Suc.IH [OF a t] e c show ?case
    unfolding sampling_Suc run_append exec_append by simp
qed

lemma hold_state:
  "run (initialApp 100000) hold = [(102001, StartCountdown)]"
  "isCountdownActive (exec (initialApp 100000) hold)"
  "clock (exec (initialApp 100000) hold) = 102001"
  "countdown (exec (initialApp 100000) hold) = \<lparr>count_state = 3, timer = Some 103001\<rparr>"
  by (simp_all add: hold_def exec_def initialApp_def app_defs good_fullPose)

text \<open>
  C8 does not hold of the countdown as the application runs it. The claim is what the
  timer is written to do (a call every 1000 ms, completion on the third), and the code
  misses it: every pose sample renders \<^verbatim>\<open>App\<close>, and every render restarts the interval.
  After the trigger at 102001, samples 100 ms apart, for as long as they come, leave no
  call of the interval ever due: no completion for that activation, the count still 3
  and the countdown still active. A single sample 500 ms after the trigger puts the
  completion off to 105501, while 3000 ms after the activation only two calls have been
  due.
\<close>

theorem countdown_restarted_by_samples:
  "run (initialApp 100000) (hold @ sampling n capture) = [(102001, StartCountdown)]
   \<and> isCountdownActive (exec (initialApp 100000) (hold @ sampling n capture))
   \<and> count_state (countdown (exec (initialApp 100000) (hold @ sampling n capture))) = 3
   \<and> run (initialApp 100000) disturbed
       = [(102001, StartCountdown), (105501, CountdownComplete)]"
proof -
  let ?s = "exec (initialApp 100000) hold"
  have t: "timer (countdown ?s) = Some (clock ?s + 1000)"
    by (simp add: hold_state)
  note st = sampling_starves [OF hold_state(2) t, of n capture]
  have d: "run (initialApp 100000) disturbed
       = [(102001, StartCountdown), (105501, CountdownComplete)]"
    by (simp add: disturbed_def hold_def initialApp_def app_defs good_fullPose)
  from st d show ?thesis
    by (simp add: run_append exec_append hold_state)
qed

end
